theory Spec2Isabelle
  imports Main "HOL-Library.Word" "HOL-Library.Signed_Division"
begin

section \<open>Machine types of rl\_sched\_mod.c\<close>

text \<open>
  The module is built for the Linux kernel on an LP64 target: \<open>int\<close> and \<open>u32\<close> have
  32 bits, \<open>long\<close> and \<open>unsigned long long\<close> have 64. The kernel is compiled with
  \<open>-fno-strict-overflow\<close>, so signed arithmetic wraps around; words do the same.
  Signed readings go through \<open>sint\<close>, unsigned ones through \<open>unat\<close>; \<open><\<close> on words
  is the unsigned comparison, \<open><s\<close> the signed one.
\<close>

type_synonym cint = "32 word"
type_synonym u32 = "32 word"
type_synonym long = "64 word"
type_synonym ull = "64 word"

definition LONG_MIN :: long where
  "LONG_MIN = - (2 ^ 63)"

text \<open>
  C's \<open>/\<close> on \<open>long\<close>: the quotient of the signed values, truncated towards zero
  (\<open>sdiv\<close> on \<open>int\<close>), stored back in 64 bits.
\<close>

definition long_div :: "long \<Rightarrow> long \<Rightarrow> long" where
  "long_div a b = word_of_int (sint a sdiv sint b)"

text \<open>An \<open>int\<close> operand of a \<open>long\<close> operation is sign-extended.\<close>

definition int_to_long :: "cint \<Rightarrow> long" where
  "int_to_long x = scast x"

section \<open>Module parameters\<close>

text \<open>\<open>interval_ms\<close> only sets the sleep between two ticks and is left out.\<close>

record config =
  alpha_permille :: cint
  gamma_permille :: cint
  epsilon_permille :: cint
  action_step :: cint

definition default_config :: config where
  "default_config =
     \<lparr>alpha_permille = 200, gamma_permille = 900, epsilon_permille = 200, action_step = 5\<rparr>"

section \<open>RL definitions\<close>

definition NUM_STATES :: nat where
  "NUM_STATES = 3"

definition NUM_ACTIONS :: nat where
  "NUM_ACTIONS = 3"

datatype rl_state = RL_STATE_LOW | RL_STATE_MED | RL_STATE_HIGH

text \<open>The value of the enumerator, used as row index of the Q-table.\<close>

fun state_idx :: "rl_state \<Rightarrow> nat" where
  "state_idx RL_STATE_LOW = 0"
| "state_idx RL_STATE_MED = 1"
| "state_idx RL_STATE_HIGH = 2"

text \<open>
  Actions are kept in \<open>int\<close> variables by the source (\<open>int prev_action\<close>,
  \<open>int action\<close>); no arithmetic is done on them, so they are integers here.
\<close>

definition RL_DEC_NICE :: int where
  "RL_DEC_NICE = 0"

definition RL_INC_NICE :: int where
  "RL_INC_NICE = 1"

definition RL_NOOP :: int where
  "RL_NOOP = 2"

text \<open>
  \<open>struct pid_entry\<close>. The list linkage is the position of the record in the table.
  \<open>qtable\<close> is the array \<open>long qtable[NUM_STATES][NUM_ACTIONS]\<close>: a list of rows.
\<close>

record pid_entry =
  pid :: int
  prev_runtime :: ull
  qtable :: "long list list"
  prev_state :: rl_state
  prev_action :: int

definition wf_qtable :: "long list list \<Rightarrow> bool" where
  "wf_qtable qt \<longleftrightarrow> length qt = NUM_STATES \<and> list_all (\<lambda>row. length row = NUM_ACTIONS) qt"

section \<open>State classifier\<close>

definition cpu_delta_to_state :: "ull \<Rightarrow> rl_state" where
  "cpu_delta_to_state delta_ns =
     (if delta_ns < 1000000 then RL_STATE_LOW
      else if delta_ns < 50000000 then RL_STATE_MED
      else RL_STATE_HIGH)"

section \<open>The pid table\<close>

text \<open>
  \<open>pid_table\<close> is a linked list; \<open>list_add\<close> puts a new entry at its head. A pointer
  to an entry is its position in the list.
\<close>

fun find_pid_entry :: "pid_entry list \<Rightarrow> int \<Rightarrow> nat option" where
  "find_pid_entry [] p = None"
| "find_pid_entry (e # es) p =
     (if pid e = p then Some 0 else map_option Suc (find_pid_entry es p))"

definition new_pid_entry :: "int \<Rightarrow> pid_entry" where
  "new_pid_entry p =
     \<lparr>pid = p, prev_runtime = 0,
      qtable = replicate NUM_STATES (replicate NUM_ACTIONS 0),
      prev_state = RL_STATE_LOW, prev_action = RL_NOOP\<rparr>"

text \<open>
  \<open>get_pid_entry\<close>: \<open>alloc_ok\<close> says whether \<open>kzalloc\<close> returns memory; the result is
  the table afterwards and the entry's position, \<open>None\<close> for the \<open>NULL\<close> return.
\<close>

definition get_pid_entry :: "pid_entry list \<Rightarrow> int \<Rightarrow> bool \<Rightarrow> pid_entry list \<times> nat option" where
  "get_pid_entry tbl p alloc_ok =
     (case find_pid_entry tbl p of
        Some i \<Rightarrow> (tbl, Some i)
      | None \<Rightarrow> if alloc_ok then (new_pid_entry p # tbl, Some 0) else (tbl, None))"

section \<open>Actuator\<close>

definition clamp_nice :: "cint \<Rightarrow> cint" where
  "clamp_nice nice =
     (if nice <s - 20 then - 20 else if 19 <s nice then 19 else nice)"

text \<open>The \<open>switch\<close> of \<open>apply_action_to_task\<close>: the nice value before clamping.\<close>

definition stepped_nice :: "config \<Rightarrow> cint \<Rightarrow> int \<Rightarrow> cint" where
  "stepped_nice cfg cur_nice action =
     (if action = RL_DEC_NICE then cur_nice - action_step cfg
      else if action = RL_INC_NICE then cur_nice + action_step cfg
      else cur_nice)"

text \<open>
  \<open>apply_action_to_task\<close>: \<open>cur_nice\<close> is what \<open>task_nice\<close> returns; the result is
  the value handed to \<open>set_user_nice\<close>, \<open>None\<close> when it is not called. The
  \<open>pr_info\<close> line printed with the call is not modelled.
\<close>

definition apply_action_to_task :: "config \<Rightarrow> cint \<Rightarrow> int \<Rightarrow> cint option" where
  "apply_action_to_task cfg cur_nice action =
     (let new_nice = clamp_nice (stepped_nice cfg cur_nice action)
      in if new_nice \<noteq> cur_nice then Some new_nice else None)"


section \<open>Policy\<close>

text \<open>
  The scan of \<open>choose_action\<close>: \<open>a\<close> is the loop counter, \<open>best\<close> and \<open>best_a\<close> the
  running maximum and its index.
\<close>

function choose_loop :: "long list \<Rightarrow> nat \<Rightarrow> long \<Rightarrow> nat \<Rightarrow> nat" where
  "choose_loop row a best best_a =
     (if a < NUM_ACTIONS
      then (let val = row ! a
            in if best <s val then choose_loop row (a + 1) val a
               else choose_loop row (a + 1) best best_a)
      else best_a)"
  by pat_completeness auto
termination
  by (relation "measure (\<lambda>(row, a, best, best_a). NUM_ACTIONS - a)") auto

declare choose_loop.simps [simp del]

text \<open>
  \<open>rnd1\<close> and \<open>rnd2\<close> are the results of the two \<open>get_random_u32\<close> calls. In
  \<open>r < epsilon_permille\<close> the \<open>int\<close> is converted to \<open>unsigned\<close>, so the comparison is
  the unsigned one on the 32-bit patterns.
\<close>

definition choose_action :: "config \<Rightarrow> pid_entry \<Rightarrow> rl_state \<Rightarrow> u32 \<Rightarrow> u32 \<Rightarrow> int" where
  "choose_action cfg pe st rnd1 rnd2 =
     (let r = rnd1 mod 1000
      in if r < epsilon_permille cfg then int (unat (rnd2 mod 3))
         else int (choose_loop (qtable pe ! state_idx st) 0 LONG_MIN 0))"

text \<open>
  Invariant of the scan before index \<open>a\<close> is looked at, and what the scan has
  established at its end.
\<close>

definition choose_inv :: "long list \<Rightarrow> nat \<Rightarrow> long \<Rightarrow> nat \<Rightarrow> bool" where
  "choose_inv row a best best_a \<longleftrightarrow>
     (\<forall>j<a. row ! j \<le>s best) \<and>
     (best_a < a \<and> best = row ! best_a \<and> (\<forall>j<best_a. row ! j <s best) \<or>
      best = LONG_MIN \<and> best_a = 0)"

definition choose_post :: "long list \<Rightarrow> nat \<Rightarrow> bool" where
  "choose_post row r \<longleftrightarrow>
     r < NUM_ACTIONS \<and> (\<forall>j<NUM_ACTIONS. row ! j \<le>s row ! r) \<and> (\<forall>j<r. row ! j <s row ! r)"

section \<open>Q-value updater\<close>

function best_next_loop :: "long list \<Rightarrow> nat \<Rightarrow> long \<Rightarrow> long" where
  "best_next_loop row i best_next =
     (if i < NUM_ACTIONS
      then (if best_next <s row ! i then best_next_loop row (i + 1) (row ! i)
            else best_next_loop row (i + 1) best_next)
      else best_next)"
  by pat_completeness auto
termination
  by (relation "measure (\<lambda>(row, i, best_next). NUM_ACTIONS - i)") auto

declare best_next_loop.simps [simp del]

definition q_best_next :: "pid_entry \<Rightarrow> rl_state \<Rightarrow> long" where
  "q_best_next pe s_next =
     (let best_next = best_next_loop (qtable pe ! state_idx s_next) 0 LONG_MIN
      in if best_next = LONG_MIN then 0 else best_next)"

definition q_new_value :: "config \<Rightarrow> long \<Rightarrow> long \<Rightarrow> long \<Rightarrow> long" where
  "q_new_value cfg q reward best_next =
     (let tmp = reward + long_div (int_to_long (gamma_permille cfg) * best_next) 1000 - q
      in q + long_div (int_to_long (alpha_permille cfg) * tmp) 1000)"

definition q_update :: "config \<Rightarrow> pid_entry \<Rightarrow> rl_state \<Rightarrow> int \<Rightarrow> long \<Rightarrow> rl_state \<Rightarrow> pid_entry" where
  "q_update cfg pe s a reward s_next =
     (let q = qtable pe ! state_idx s ! nat a;
          best_next = q_best_next pe s_next;
          q' = q_new_value cfg q reward best_next
      in pe\<lparr>qtable := (qtable pe)[state_idx s := (qtable pe ! state_idx s)[nat a := q']]\<rparr>)"

section \<open>Sampling loop\<close>

text \<open>
  What the loop reads of a \<open>task_struct\<close>. \<open>exit_state\<close> is compared with two
  constants of the kernel headers only.
\<close>

datatype exit_state = EXIT_NONE | EXIT_ZOMBIE | EXIT_DEAD

record task =
  t_pid :: int
  t_exit_state :: exit_state
  t_runtime :: ull
  t_nice :: cint

text \<open>
  One visit of a process by \<open>for_each_process\<close>: the task as the host shows it
  (\<open>t_nice\<close> is what \<open>task_nice\<close> returns at that moment), and what the
  environment answers during the visit (the allocator, the two random draws).
\<close>

record visit =
  v_task :: task
  v_alloc_ok :: bool
  v_rnd1 :: u32
  v_rnd2 :: u32

text \<open>The effects of the loop outside the table: calls of \<open>set_user_nice\<close> and of \<open>q_update\<close>.\<close>

datatype event =
  SetNice int cint
| QUpdate int rl_state int long rl_state

record world =
  table :: "pid_entry list"
  trace :: "event list"

definition tick_delta :: "ull \<Rightarrow> ull \<Rightarrow> ull" where
  "tick_delta curr_runtime prev = (if prev \<le> curr_runtime then curr_runtime - prev else 0)"

definition tick_reward :: "ull \<Rightarrow> long" where
  "tick_reward delta = - (delta div 1000000)"

text \<open>The body of \<open>for_each_process\<close> in \<open>rl_worker\<close>, after the entry was found.\<close>

definition process_entry :: "config \<Rightarrow> world \<Rightarrow> pid_entry list \<Rightarrow> nat \<Rightarrow> visit \<Rightarrow> world" where
  "process_entry cfg w tbl i v =
     (let p = v_task v;
          curr_runtime = t_runtime p;
          pe = tbl ! i
      in if prev_runtime pe = 0
         then w\<lparr>table := tbl[i := pe\<lparr>prev_runtime := curr_runtime\<rparr>]\<rparr>
         else
           (let delta = tick_delta curr_runtime (prev_runtime pe);
                st = cpu_delta_to_state delta;
                action = choose_action cfg pe st (v_rnd1 v) (v_rnd2 v);
                nice_ev = (case apply_action_to_task cfg (t_nice p) action of
                             Some n \<Rightarrow> [SetNice (t_pid p) n] | None \<Rightarrow> []);
                reward = tick_reward delta;
                upd = (0 \<le> prev_action pe \<and> prev_action pe < int NUM_ACTIONS);
                pe1 = (if upd then q_update cfg pe (prev_state pe) (prev_action pe) reward st
                       else pe);
                upd_ev = (if upd then [QUpdate (t_pid p) (prev_state pe) (prev_action pe) reward st]
                          else []);
                pe2 = pe1\<lparr>prev_state := st, prev_action := action,
                          prev_runtime := curr_runtime\<rparr>
            in \<lparr>table = tbl[i := pe2], trace = trace w @ nice_ev @ upd_ev\<rparr>))"

definition process_one :: "config \<Rightarrow> world \<Rightarrow> visit \<Rightarrow> world" where
  "process_one cfg w v =
     (let p = v_task v
      in if t_exit_state p = EXIT_ZOMBIE \<or> t_exit_state p = EXIT_DEAD then w
         else (case get_pid_entry (table w) (t_pid p) (v_alloc_ok v) of
                 (tbl, None) \<Rightarrow> w\<lparr>table := tbl\<rparr>
               | (tbl, Some i) \<Rightarrow> process_entry cfg w tbl i v))"

text \<open>
  One pass over the processes, and the run of the worker: the passes it makes, one per
  list of visits, until \<open>kthread_should_stop\<close> ends the loop. The sleep between two
  passes has no effect on the table.
\<close>

fun rl_tick :: "config \<Rightarrow> world \<Rightarrow> visit list \<Rightarrow> world" where
  "rl_tick cfg w [] = w"
| "rl_tick cfg w (v # vs) = rl_tick cfg (process_one cfg w v) vs"

fun rl_worker :: "config \<Rightarrow> world \<Rightarrow> visit list list \<Rightarrow> world" where
  "rl_worker cfg w [] = w"
| "rl_worker cfg w (t # ts) = rl_worker cfg (rl_tick cfg w t) ts"

section \<open>The update rule as the specification words it\<close>

text \<open>
  Section 4.4 of the specification reads the rule over the integers:
  \<open>bestNext\<close> is the maximum of the row of the next state, and
  \<open>q + (alpha * (reward + (gamma * bestNext) / 1000 - q)) / 1000\<close> with divisions
  truncating towards zero. These two definitions follow that text, not the source.
\<close>

definition spec_best_next :: "pid_entry \<Rightarrow> rl_state \<Rightarrow> int" where
  "spec_best_next pe s_next = Max (sint ` set (qtable pe ! state_idx s_next))"

definition spec_q_value :: "int \<Rightarrow> int \<Rightarrow> int \<Rightarrow> int \<Rightarrow> int \<Rightarrow> int" where
  "spec_q_value alpha gamma q reward bestNext =
     q + (alpha * (reward + (gamma * bestNext) sdiv 1000 - q)) sdiv 1000"

text \<open>The values of a \<open>long\<close>, and the update staying inside them where it divides and stores.\<close>

definition in_long :: "int \<Rightarrow> bool" where
  "in_long x \<longleftrightarrow> - (2 ^ 63) \<le> x \<and> x < 2 ^ 63"

definition q_no_overflow :: "config \<Rightarrow> long \<Rightarrow> long \<Rightarrow> long \<Rightarrow> bool" where
  "q_no_overflow cfg q reward bn \<longleftrightarrow>
     in_long (sint (gamma_permille cfg) * sint bn) \<and>
     in_long (sint (alpha_permille cfg) *
        (sint reward + (sint (gamma_permille cfg) * sint bn) sdiv 1000 - sint q)) \<and>
     in_long (spec_q_value (sint (alpha_permille cfg)) (sint (gamma_permille cfg))
        (sint q) (sint reward) (sint bn))"

text \<open>Invariant and result of the scan for \<open>best_next\<close> in \<open>q_update\<close>.\<close>

definition best_next_inv :: "long list \<Rightarrow> nat \<Rightarrow> long \<Rightarrow> bool" where
  "best_next_inv row i b \<longleftrightarrow>
     (\<forall>j<i. row ! j \<le>s b) \<and> (b = LONG_MIN \<or> (\<exists>j<i. row ! j = b))"

definition best_next_post :: "long list \<Rightarrow> long \<Rightarrow> bool" where
  "best_next_post row b \<longleftrightarrow>
     (\<forall>j<NUM_ACTIONS. row ! j \<le>s b) \<and> (\<exists>j<NUM_ACTIONS. row ! j = b)"

section \<open>Concrete configurations, entries and visits\<close>

text \<open>Learning rate 1.0 with discount 0, and with discount 0.001.\<close>

definition unit_config :: config where
  "unit_config = \<lparr>alpha_permille = 1000, gamma_permille = 0, epsilon_permille = 0, action_step = 5\<rparr>"

definition floor_config :: config where
  "floor_config = \<lparr>alpha_permille = 1000, gamma_permille = 1, epsilon_permille = 0, action_step = 5\<rparr>"

text \<open>An entry whose HIGH row holds \<open>LONG_MIN\<close> in every cell, and one with a tie in the MED row.\<close>

definition floor_entry :: pid_entry where
  "floor_entry = (new_pid_entry 1)\<lparr>qtable := [[0, 0, 0], [0, 0, 0], [LONG_MIN, LONG_MIN, LONG_MIN]]\<rparr>"

definition tie_entry :: pid_entry where
  "tie_entry = (new_pid_entry 7)\<lparr>qtable := [[0, 0, 0], [- 3, 5, 5], [0, 0, 0]]\<rparr>"

text \<open>
  Process 42 at two consecutive ticks: 500,000 ns of CPU time at the first, 52,500,000 ns
  at the second. The first draw 999 keeps the policy greedy under the default epsilon.
  \<open>seen_entry\<close> is its entry between the two ticks.
\<close>

definition visit1 :: visit where
  "visit1 = \<lparr>v_task = \<lparr>t_pid = 42, t_exit_state = EXIT_NONE, t_runtime = 500000, t_nice = 0\<rparr>,
              v_alloc_ok = True, v_rnd1 = 999, v_rnd2 = 0\<rparr>"

definition visit2 :: visit where
  "visit2 = \<lparr>v_task = \<lparr>t_pid = 42, t_exit_state = EXIT_NONE, t_runtime = 52500000, t_nice = 0\<rparr>,
              v_alloc_ok = True, v_rnd1 = 999, v_rnd2 = 0\<rparr>"

definition seen_entry :: pid_entry where
  "seen_entry = (new_pid_entry 42)\<lparr>prev_runtime := 500000\<rparr>"

text \<open>
  The default parameters with exploration switched off, and process 42 at three
  consecutive ticks with 1 ns, 500,001 ns and 52,500,001 ns of CPU time: the deltas of
  the second and third tick are 500,000 ns and 52,000,000 ns. \<open>lag_entry\<close> is its
  entry between the second and the third tick.
\<close>

definition greedy_config :: config where
  "greedy_config = default_config\<lparr>epsilon_permille := 0\<rparr>"

definition lag_visit1 :: visit where
  "lag_visit1 = \<lparr>v_task = \<lparr>t_pid = 42, t_exit_state = EXIT_NONE, t_runtime = 1, t_nice = 0\<rparr>,
                 v_alloc_ok = True, v_rnd1 = 0, v_rnd2 = 0\<rparr>"

definition lag_visit2 :: visit where
  "lag_visit2 = \<lparr>v_task = \<lparr>t_pid = 42, t_exit_state = EXIT_NONE, t_runtime = 500001, t_nice = 0\<rparr>,
                 v_alloc_ok = True, v_rnd1 = 0, v_rnd2 = 0\<rparr>"

definition lag_visit3 :: visit where
  "lag_visit3 = \<lparr>v_task = \<lparr>t_pid = 42, t_exit_state = EXIT_NONE, t_runtime = 52500001,
                   t_nice = - 5\<rparr>,
                 v_alloc_ok = True, v_rnd1 = 0, v_rnd2 = 0\<rparr>"

definition lag_entry :: pid_entry where
  "lag_entry = (new_pid_entry 42)\<lparr>prev_runtime := 500001, prev_action := 0\<rparr>"

section \<open>Looking at one process in a run\<close>

text \<open>The entry the table holds for a pid, and the events of the trace that concern it.\<close>

definition entry_of :: "pid_entry list \<Rightarrow> int \<Rightarrow> pid_entry option" where
  "entry_of tbl p = map_option (\<lambda>i. tbl ! i) (find_pid_entry tbl p)"

fun event_pid :: "event \<Rightarrow> int" where
  "event_pid (SetNice p n) = p"
| "event_pid (QUpdate p s a r s') = p"

definition events_of :: "int \<Rightarrow> event list \<Rightarrow> event list" where
  "events_of p tr = filter (\<lambda>e. event_pid e = p) tr"

text \<open>A visit that is not of process \<open>p\<close>, or that sees it with no CPU time used yet.\<close>

definition quiet_visit :: "int \<Rightarrow> visit \<Rightarrow> bool" where
  "quiet_visit p v \<longleftrightarrow> t_pid (v_task v) \<noteq> p \<or> t_runtime (v_task v) = 0"

text \<open>
  Process \<open>p\<close> has not been worked on: its events are still \<open>tr0\<close> and its entry is
  still \<open>e0\<close>, or, when \<open>fresh\<close>, it has none yet and \<open>e0\<close> is the entry it would get.
\<close>

definition untouched :: "int \<Rightarrow> bool \<Rightarrow> pid_entry \<Rightarrow> event list \<Rightarrow> world \<Rightarrow> bool" where
  "untouched p fresh e0 tr0 w \<longleftrightarrow>
     events_of p (trace w) = tr0 \<and>
     (entry_of (table w) p = Some e0 \<or>
      fresh \<and> e0 = new_pid_entry p \<and> entry_of (table w) p = None)"

text \<open>
  Process 42 seen with no CPU time used, and process 7 seen at a moment when
  \<open>kzalloc\<close> fails.
\<close>

definition idle_visit :: visit where
  "idle_visit = \<lparr>v_task = \<lparr>t_pid = 42, t_exit_state = EXIT_NONE, t_runtime = 0, t_nice = 0\<rparr>,
                 v_alloc_ok = True, v_rnd1 = 999, v_rnd2 = 0\<rparr>"

definition starved_visit :: visit where
  "starved_visit = visit2\<lparr>v_task := (v_task visit2)\<lparr>t_pid := 7\<rparr>, v_alloc_ok := False\<rparr>"

section \<open>State classifier: thresholds and monotonicity\<close>

lemma cpu_delta_to_state_unat:
  "cpu_delta_to_state d =
     (if unat d < 1000000 then RL_STATE_LOW
      else if unat d < 50000000 then RL_STATE_MED else RL_STATE_HIGH)"
  by (simp add: cpu_delta_to_state_def word_less_nat_alt)

text \<open>
  C4. \<open>cpu_delta_to_state\<close> is total on the deltas (every value of \<open>unsigned long long\<close>)
  and returns LOW exactly below 1,000,000 ns, MED exactly from 1,000,000 ns up to but not
  including 50,000,000 ns, HIGH exactly from 50,000,000 ns on; hence it is monotone for
  the order LOW < MED < HIGH of the enumerators.
\<close>

theorem cpu_delta_to_state_thresholds_mono:
  "(cpu_delta_to_state d = RL_STATE_LOW \<longleftrightarrow> unat d < 1000000) \<and>
   (cpu_delta_to_state d = RL_STATE_MED \<longleftrightarrow> 1000000 \<le> unat d \<and> unat d < 50000000) \<and>
   (cpu_delta_to_state d = RL_STATE_HIGH \<longleftrightarrow> 50000000 \<le> unat d) \<and>
   (\<forall>d2. unat d < unat d2 \<longrightarrow>
      state_idx (cpu_delta_to_state d) \<le> state_idx (cpu_delta_to_state d2))"
  by (simp add: cpu_delta_to_state_unat)

theorem cpu_delta_to_state_thresholds_mono_witness:
  "unat (999999 :: ull) < unat (1000000 :: ull) \<and>
   cpu_delta_to_state 999999 = RL_STATE_LOW \<and>
   cpu_delta_to_state 1000000 = RL_STATE_MED \<and>
   state_idx (cpu_delta_to_state 999999) \<le> state_idx (cpu_delta_to_state 1000000)"
  using cpu_delta_to_state_thresholds_mono [of 999999]
  by (simp add: cpu_delta_to_state_def)

section \<open>Signed order on \<open>long\<close>\<close>

lemma sint_LONG_MIN: "sint LONG_MIN = - (2 ^ 63)"
  by (simp add: LONG_MIN_def)

lemma LONG_MIN_least: "sint LONG_MIN \<le> sint (x :: long)"
  using sint_ge [of x] by (simp add: sint_LONG_MIN)

lemma sle_LONG_MIN: "x \<le>s LONG_MIN \<longleftrightarrow> x = LONG_MIN"
  using LONG_MIN_least [of x] by (auto simp: word_sle_eq intro: signed_word_eqI)

section \<open>Actuator: clamping and the single write\<close>







section \<open>Policy: the greedy choice\<close>

lemma choose_inv_step_gt:
  assumes "choose_inv row a best best_a" "best <s row ! a"
  shows "choose_inv row (Suc a) (row ! a) a"
  unfolding choose_inv_def
proof (intro conjI allI impI)
  fix j assume "j < Suc a"
  then show "row ! j \<le>s row ! a"
    using assms by (cases "j = a") (auto simp: choose_inv_def less_Suc_eq)
next
  have "\<forall>j<a. row ! j <s row ! a"
    using assms by (auto simp: choose_inv_def)
  then show "a < Suc a \<and> row ! a = row ! a \<and> (\<forall>j<a. row ! j <s row ! a) \<or>
      row ! a = LONG_MIN \<and> a = 0"
    by simp
qed

lemma choose_inv_step_le:
  assumes "choose_inv row a best best_a" "\<not> best <s row ! a"
  shows "choose_inv row (Suc a) best best_a"
  using assms by (auto simp: choose_inv_def less_Suc_eq signed.not_less)

lemma choose_loop_post:
  "choose_inv row a best best_a \<Longrightarrow> a \<le> NUM_ACTIONS \<Longrightarrow>
   choose_post row (choose_loop row a best best_a)"
proof (induction row a best best_a rule: choose_loop.induct)
  case (1 row a best best_a)
  show ?case
  proof (cases "a < NUM_ACTIONS")
    case True
    show ?thesis
    proof (cases "best <s row ! a")
      case gt: True
      have "choose_post row (choose_loop row (a + 1) (row ! a) a)"
        using "1.IH"(1) [OF True refl gt] choose_inv_step_gt [OF "1.prems"(1) gt] True
        by simp
      then show ?thesis
        using True gt by (subst choose_loop.simps) simp
    next
      case le: False
      have "choose_post row (choose_loop row (a + 1) best best_a)"
        using "1.IH"(2) [OF True refl le] choose_inv_step_le [OF "1.prems"(1) le] True
        by simp
      then show ?thesis
        using True le by (subst choose_loop.simps) simp
    qed
  next
    case False
    then have a: "a = NUM_ACTIONS" using "1.prems"(2) by simp
    have r: "choose_loop row a best best_a = best_a"
      using False by (subst choose_loop.simps) simp
    have "choose_inv row NUM_ACTIONS best best_a"
      using "1.prems"(1) a by simp
    then have "choose_post row best_a"
      by (auto simp: choose_inv_def choose_post_def sle_LONG_MIN NUM_ACTIONS_def)
    then show ?thesis
      by (simp add: r)
  qed
qed

lemma choose_loop_greedy: "choose_post row (choose_loop row 0 LONG_MIN 0)"
  by (rule choose_loop_post) (simp_all add: choose_inv_def)

text \<open>
  C3. With \<open>epsilon_permille = 0\<close>, whatever the random draws, \<open>choose_action\<close>
  returns an action index whose Q-value is maximal in the row of the state (signed
  comparison), and every action with a smaller index has a strictly smaller Q-value: it
  is the lowest index of the maximum.
\<close>

theorem choose_action_greedy:
  assumes "epsilon_permille cfg = 0" and "wf_qtable (qtable pe)"
  shows "0 \<le> choose_action cfg pe st rnd1 rnd2 \<and>
         choose_action cfg pe st rnd1 rnd2 < int NUM_ACTIONS \<and>
         (\<forall>j<NUM_ACTIONS. qtable pe ! state_idx st ! j
              \<le>s qtable pe ! state_idx st ! nat (choose_action cfg pe st rnd1 rnd2)) \<and>
         (\<forall>j<nat (choose_action cfg pe st rnd1 rnd2). qtable pe ! state_idx st ! j
              <s qtable pe ! state_idx st ! nat (choose_action cfg pe st rnd1 rnd2))"
proof -
  have "choose_action cfg pe st rnd1 rnd2 =
          int (choose_loop (qtable pe ! state_idx st) 0 LONG_MIN 0)"
    using assms(1) by (simp add: choose_action_def)
  then show ?thesis
    using choose_loop_greedy [of "qtable pe ! state_idx st"]
    by (simp add: choose_post_def)
qed

text \<open>A row with a manufactured tie: actions 1 and 2 share the maximum, 1 is chosen.\<close>

theorem choose_action_greedy_witness:
  "epsilon_permille (default_config\<lparr>epsilon_permille := 0\<rparr>) = 0 \<and>
   wf_qtable (qtable tie_entry) \<and>
   choose_action (default_config\<lparr>epsilon_permille := 0\<rparr>)
     tie_entry RL_STATE_MED 123 456 = 1"
proof -
  let ?cfg = "default_config\<lparr>epsilon_permille := 0\<rparr>"
  let ?pe = "tie_entry"
  let ?a = "choose_action ?cfg ?pe RL_STATE_MED 123 456"
  have e: "epsilon_permille ?cfg = 0" by simp
  have w: "wf_qtable (qtable ?pe)"
    by (simp add: tie_entry_def wf_qtable_def NUM_STATES_def NUM_ACTIONS_def)
  have row: "qtable ?pe ! state_idx RL_STATE_MED = [- 3, 5, 5]"
    by (simp add: tie_entry_def)
  note g = choose_action_greedy [OF e w, of RL_STATE_MED 123 456, unfolded row]
  note m = g [THEN conjunct2, THEN conjunct2, THEN conjunct1, rule_format, of 1]
  note l = g [THEN conjunct2, THEN conjunct2, THEN conjunct2, rule_format, of 1]
  have "0 \<le> ?a" "?a < 3"
    using g by (simp_all add: NUM_ACTIONS_def)
  then consider "?a = 0" | "?a = 1" | "?a = 2" by arith
  then have a: "?a = 1"
  proof cases
    case 1
    with m show ?thesis by (simp add: NUM_ACTIONS_def)
  next
    case 2
    then show ?thesis .
  next
    case 3
    with l show ?thesis by simp
  qed
  show ?thesis using e w a by blast
qed

section \<open>Q-value updater: arithmetic on \<open>long\<close>\<close>

lemma sint_word_of_int_long: "in_long x \<Longrightarrow> sint (word_of_int x :: long) = x"
  by (simp add: in_long_def sint_sbintrunc' signed_take_bit_int_eq_self)

lemma sint_int_to_long: "sint (int_to_long x) = sint x"
  by (simp add: int_to_long_def sint_up_scast is_up)

lemma int_to_long_of_int: "int_to_long x = word_of_int (sint x)"
  by (simp only: int_to_long_def scast_eq)

lemma long_of_sint: "word_of_int (sint x) = (x :: long)"
  by simp

lemma long_mult_of_int: "int_to_long c * (x :: long) = word_of_int (sint c * sint x)"
proof -
  have "int_to_long c * x = word_of_int (sint c) * word_of_int (sint x)"
    by (simp only: int_to_long_of_int long_of_sint)
  then show ?thesis by (simp only: wi_hom_mult)
qed

lemma long_div_1000: "long_div (word_of_int x) 1000 = word_of_int (x sdiv 1000)" if "in_long x"
  using that by (simp add: long_div_def sint_word_of_int_long)

lemma best_next_inv_step:
  assumes "best_next_inv row i b"
  shows "best_next_inv row (Suc i) (if b <s row ! i then row ! i else b)"
proof (cases "b <s row ! i")
  case True
  have "row ! j \<le>s row ! i" if "j < Suc i" for j
    using that assms True by (cases "j = i") (auto simp: best_next_inv_def less_Suc_eq)
  then show ?thesis
    using True by (auto simp: best_next_inv_def)
next
  case False
  then show ?thesis
    using assms by (auto simp: best_next_inv_def less_Suc_eq signed.not_less)
qed

lemma best_next_loop_post:
  "best_next_inv row i b \<Longrightarrow> i \<le> NUM_ACTIONS \<Longrightarrow> best_next_post row (best_next_loop row i b)"
proof (induction row i b rule: best_next_loop.induct)
  case (1 row i b)
  show ?case
  proof (cases "i < NUM_ACTIONS")
    case True
    note step = best_next_inv_step [OF "1.prems"(1)]
    show ?thesis
    proof (cases "b <s row ! i")
      case gt: True
      have "best_next_post row (best_next_loop row (i + 1) (row ! i))"
        using "1.IH"(1) [OF True gt] step gt True by simp
      then show ?thesis
        using True gt by (subst best_next_loop.simps) simp
    next
      case le: False
      have "best_next_post row (best_next_loop row (i + 1) b)"
        using "1.IH"(2) [OF True le] step le True by simp
      then show ?thesis
        using True le by (subst best_next_loop.simps) simp
    qed
  next
    case False
    then have i: "i = NUM_ACTIONS" using "1.prems"(2) by simp
    have r: "best_next_loop row i b = b"
      using False by (subst best_next_loop.simps) simp
    have "best_next_inv row NUM_ACTIONS b"
      using "1.prems"(1) i by simp
    then have ub: "\<forall>j<NUM_ACTIONS. row ! j \<le>s b"
      and ex: "b = LONG_MIN \<or> (\<exists>j<NUM_ACTIONS. row ! j = b)"
      by (simp_all add: best_next_inv_def)
    have "\<exists>j<NUM_ACTIONS. row ! j = b"
    proof (cases "b = LONG_MIN")
      case True
      then have "row ! 0 = b"
        using ub by (simp add: sle_LONG_MIN NUM_ACTIONS_def)
      then show ?thesis
        by (intro exI [of _ 0]) (simp add: NUM_ACTIONS_def)
    next
      case False
      then show ?thesis using ex by simp
    qed
    with ub have "best_next_post row b"
      by (simp add: best_next_post_def)
    then show ?thesis by (simp add: r)
  qed
qed

lemma best_next_loop_Max:
  assumes "length row = NUM_ACTIONS"
  shows "sint (best_next_loop row 0 LONG_MIN) = Max (sint ` set row)"
proof -
  let ?b = "best_next_loop row 0 LONG_MIN"
  have "best_next_post row ?b"
    by (rule best_next_loop_post) (simp_all add: best_next_inv_def)
  then have ub: "\<forall>j<length row. sint (row ! j) \<le> sint ?b" and ex: "\<exists>j<length row. row ! j = ?b"
    using assms by (simp_all add: best_next_post_def word_sle_eq)
  have "sint ?b \<in> sint ` set row"
    using ex by (metis imageI nth_mem)
  moreover have "y \<le> sint ?b" if "y \<in> sint ` set row" for y
    using that ub by (auto simp: in_set_conv_nth)
  ultimately show ?thesis
    by (intro Max_eqI [symmetric]) simp_all
qed

lemma wf_qtable_row: "wf_qtable qt \<Longrightarrow> length (qt ! state_idx s) = NUM_ACTIONS"
  by (cases s) (auto simp: wf_qtable_def NUM_STATES_def list_all_length)

lemma state_idx_less: "state_idx s < NUM_STATES"
  by (cases s) (simp_all add: NUM_STATES_def)

lemma q_best_next_spec:
  assumes "wf_qtable (qtable pe)"
  shows "sint (q_best_next pe s_next) =
           (if spec_best_next pe s_next = sint LONG_MIN then 0 else spec_best_next pe s_next)"
proof -
  have m: "sint (best_next_loop (qtable pe ! state_idx s_next) 0 LONG_MIN) = spec_best_next pe s_next"
    unfolding spec_best_next_def
    by (rule best_next_loop_Max) (rule wf_qtable_row [OF assms])
  show ?thesis
    unfolding m [symmetric] q_best_next_def Let_def
    by (auto intro: signed_word_eqI)
qed

lemma q_new_value_int:
  assumes g: "in_long (sint (gamma_permille cfg) * sint bn)"
    and u: "in_long (sint (alpha_permille cfg) *
              (sint reward + (sint (gamma_permille cfg) * sint bn) sdiv 1000 - sint q))"
    and r: "in_long (spec_q_value (sint (alpha_permille cfg)) (sint (gamma_permille cfg))
              (sint q) (sint reward) (sint bn))"
  shows "sint (q_new_value cfg q reward bn) =
           spec_q_value (sint (alpha_permille cfg)) (sint (gamma_permille cfg))
             (sint q) (sint reward) (sint bn)"
proof -
  let ?al = "sint (alpha_permille cfg)" and ?ga = "sint (gamma_permille cfg)"
  have G: "int_to_long (gamma_permille cfg) * bn = word_of_int (?ga * sint bn)"
    by (rule long_mult_of_int)
  have D: "long_div (int_to_long (gamma_permille cfg) * bn) 1000 =
             word_of_int ((?ga * sint bn) sdiv 1000)"
    unfolding G by (rule long_div_1000 [OF g])
  let ?t = "sint reward + (?ga * sint bn) sdiv 1000 - sint q"
  have T: "reward + long_div (int_to_long (gamma_permille cfg) * bn) 1000 - q = word_of_int ?t"
  proof -
    have "reward + word_of_int ((?ga * sint bn) sdiv 1000) - q =
            word_of_int (sint reward) + word_of_int ((?ga * sint bn) sdiv 1000)
              - word_of_int (sint q)"
      by (simp only: long_of_sint)
    then show ?thesis
      by (simp only: D wi_hom_add wi_hom_sub)
  qed
  have U: "int_to_long (alpha_permille cfg) * word_of_int ?t = word_of_int (?al * ?t)"
    by (simp only: int_to_long_of_int wi_hom_mult)
  have v: "q_new_value cfg q reward bn = word_of_int (sint q + (?al * ?t) sdiv 1000)"
  proof -
    have "q + word_of_int ((?al * ?t) sdiv 1000) =
            word_of_int (sint q) + word_of_int ((?al * ?t) sdiv 1000)"
      by (simp only: long_of_sint)
    then show ?thesis
      unfolding q_new_value_def Let_def T U long_div_1000 [OF u]
      by (simp only: wi_hom_add)
  qed
  have "sint (word_of_int (sint q + (?al * ?t) sdiv 1000) :: long) = sint q + (?al * ?t) sdiv 1000"
    using r unfolding spec_q_value_def by (rule sint_word_of_int_long)
  then show ?thesis
    by (simp only: v spec_q_value_def)
qed


lemma q_update_fields:
  "pid (q_update cfg pe s a reward s_next) = pid pe"
  "prev_runtime (q_update cfg pe s a reward s_next) = prev_runtime pe"
  "prev_state (q_update cfg pe s a reward s_next) = prev_state pe"
  "prev_action (q_update cfg pe s a reward s_next) = prev_action pe"
  by (simp_all add: q_update_def Let_def)

lemma q_update_qtable:
  "qtable (q_update cfg pe s a reward s_next) =
     (qtable pe)[state_idx s := (qtable pe ! state_idx s)
        [nat a := q_new_value cfg (qtable pe ! state_idx s ! nat a) reward (q_best_next pe s_next)]]"
  by (simp add: q_update_def Let_def)

lemma wf_qtable_update:
  assumes "wf_qtable qt"
  shows "wf_qtable (qt[i := (qt ! i)[j := v]])"
proof -
  have "length ((qt[i := (qt ! i)[j := v]]) ! k) = NUM_ACTIONS" if "k < length qt" for k
    using that assms by (cases "k = i") (simp_all add: wf_qtable_def list_all_length)
  then show ?thesis
    using assms by (simp add: wf_qtable_def list_all_length)
qed

lemma q_update_wf: "wf_qtable (qtable pe) \<Longrightarrow> wf_qtable (qtable (q_update cfg pe s a reward s_next))"
  unfolding q_update_qtable by (rule wf_qtable_update)

lemma q_update_written_cell:
  assumes "wf_qtable (qtable pe)" "0 \<le> a" "a < int NUM_ACTIONS"
  shows "qtable (q_update cfg pe s a reward s_next) ! state_idx s ! nat a =
           q_new_value cfg (qtable pe ! state_idx s ! nat a) reward (q_best_next pe s_next)"
proof -
  have "state_idx s < length (qtable pe)"
    using assms(1) state_idx_less [of s] by (simp add: wf_qtable_def)
  moreover have "nat a < length (qtable pe ! state_idx s)"
    using assms wf_qtable_row [of "qtable pe" s] by simp
  ultimately show ?thesis
    by (simp add: q_update_qtable)
qed

lemma q_update_other_cell:
  assumes "i \<noteq> state_idx s \<or> j \<noteq> nat a"
  shows "qtable (q_update cfg pe s a reward s_next) ! i ! j = qtable pe ! i ! j"
proof (cases "i = state_idx s")
  case True
  then have j: "j \<noteq> nat a" using assms by simp
  show ?thesis
  proof (cases "state_idx s < length (qtable pe)")
    case True
    with \<open>i = state_idx s\<close> j show ?thesis by (simp add: q_update_qtable)
  next
    case False
    then show ?thesis by (simp add: q_update_qtable list_update_beyond)
  qed
next
  case False
  then show ?thesis by (simp add: q_update_qtable)
qed

text \<open>
  C2, as the specification states it, fails on a row whose cells are all \<open>LONG_MIN\<close>:
  the source then takes 0 for \<open>best_next\<close>, the specification the maximum
  \<open>LONG_MIN\<close>. With learning rate 1.0 and discount 0.001 the source leaves the cell
  at 0 where the specification's formula gives -9223372036854775.
\<close>

theorem q_update_best_next_counterexample:
  "sint (qtable (q_update floor_config floor_entry RL_STATE_LOW 0 0 RL_STATE_HIGH) ! 0 ! 0) \<noteq>
   spec_q_value (sint (alpha_permille floor_config)) (sint (gamma_permille floor_config))
     (sint (qtable floor_entry ! 0 ! 0)) 0 (spec_best_next floor_entry RL_STATE_HIGH)"
  by code_simp

text \<open>
  C2, amended. For a 3 x 3 table and an action index in range, \<open>q_update\<close> leaves the
  other fields and every other cell as they are and writes into cell \<open>(s, a)\<close> the
  value of \<open>q + (alpha * (reward + (gamma * best_next) / 1000 - q)) / 1000\<close> computed
  in 64-bit \<open>long\<close> arithmetic with truncating division, where \<open>best_next\<close> is the
  maximum of the row of \<open>s_next\<close>, except that it is 0 when that maximum is
  \<open>LONG_MIN\<close>. Whenever the two products and the result fit in a \<open>long\<close>, the value
  written is the specification's formula over the integers.
\<close>

theorem q_update_cell:
  assumes "wf_qtable (qtable pe)" and "0 \<le> a" and "a < int NUM_ACTIONS"
  shows
    "pid (q_update cfg pe s a reward s_next) = pid pe \<and>
     prev_runtime (q_update cfg pe s a reward s_next) = prev_runtime pe \<and>
     prev_state (q_update cfg pe s a reward s_next) = prev_state pe \<and>
     prev_action (q_update cfg pe s a reward s_next) = prev_action pe \<and>
     wf_qtable (qtable (q_update cfg pe s a reward s_next)) \<and>
     (\<forall>i j. i \<noteq> state_idx s \<or> j \<noteq> nat a \<longrightarrow>
        qtable (q_update cfg pe s a reward s_next) ! i ! j = qtable pe ! i ! j) \<and>
     qtable (q_update cfg pe s a reward s_next) ! state_idx s ! nat a =
       qtable pe ! state_idx s ! nat a +
       long_div (int_to_long (alpha_permille cfg) *
         (reward + long_div (int_to_long (gamma_permille cfg) * q_best_next pe s_next) 1000
            - qtable pe ! state_idx s ! nat a)) 1000 \<and>
     sint (q_best_next pe s_next) =
       (if spec_best_next pe s_next = sint LONG_MIN then 0 else spec_best_next pe s_next) \<and>
     (q_no_overflow cfg (qtable pe ! state_idx s ! nat a) reward (q_best_next pe s_next) \<longrightarrow>
        sint (qtable (q_update cfg pe s a reward s_next) ! state_idx s ! nat a) =
          spec_q_value (sint (alpha_permille cfg)) (sint (gamma_permille cfg))
            (sint (qtable pe ! state_idx s ! nat a)) (sint reward)
            (sint (q_best_next pe s_next)))"
proof -
  note w = q_update_written_cell [OF assms]
  have v: "qtable (q_update cfg pe s a reward s_next) ! state_idx s ! nat a =
       qtable pe ! state_idx s ! nat a +
       long_div (int_to_long (alpha_permille cfg) *
         (reward + long_div (int_to_long (gamma_permille cfg) * q_best_next pe s_next) 1000
            - qtable pe ! state_idx s ! nat a)) 1000"
    unfolding w by (simp add: q_new_value_def Let_def)
  have i: "sint (qtable (q_update cfg pe s a reward s_next) ! state_idx s ! nat a) =
          spec_q_value (sint (alpha_permille cfg)) (sint (gamma_permille cfg))
            (sint (qtable pe ! state_idx s ! nat a)) (sint reward)
            (sint (q_best_next pe s_next))"
    if "q_no_overflow cfg (qtable pe ! state_idx s ! nat a) reward (q_best_next pe s_next)"
    unfolding w using that by (intro q_new_value_int) (simp_all add: q_no_overflow_def)
  show ?thesis
    using q_update_fields [of cfg pe s a reward s_next] q_update_wf [OF assms(1)]
      q_update_other_cell [of _ s _ a cfg pe reward s_next] v i
      q_best_next_spec [OF assms(1)]
    by blast
qed

theorem q_update_cell_witness:
  "wf_qtable (qtable (new_pid_entry 1)) \<and> (0 :: int) \<le> 2 \<and> (2 :: int) < int NUM_ACTIONS \<and>
   q_no_overflow default_config (qtable (new_pid_entry 1) ! state_idx RL_STATE_LOW ! nat 2)
     (- 1000) (q_best_next (new_pid_entry 1) RL_STATE_HIGH) \<and>
   sint (qtable (q_update default_config (new_pid_entry 1) RL_STATE_LOW 2 (- 1000) RL_STATE_HIGH)
           ! state_idx RL_STATE_LOW ! nat 2) = - 200"
proof -
  have w: "wf_qtable (qtable (new_pid_entry 1))" by code_simp
  have b: "(0 :: int) \<le> 2" "(2 :: int) < int NUM_ACTIONS" by (simp_all add: NUM_ACTIONS_def)
  have no: "q_no_overflow default_config (qtable (new_pid_entry 1) ! state_idx RL_STATE_LOW ! nat 2)
     (- 1000) (q_best_next (new_pid_entry 1) RL_STATE_HIGH)"
    by code_simp
  have sp: "spec_q_value (sint (alpha_permille default_config)) (sint (gamma_permille default_config))
      (sint (qtable (new_pid_entry 1) ! state_idx RL_STATE_LOW ! nat 2)) (sint (- 1000 :: long))
      (sint (q_best_next (new_pid_entry 1) RL_STATE_HIGH)) = - 200"
    by code_simp
  note t = q_update_cell [OF w b, of default_config RL_STATE_LOW "- 1000" RL_STATE_HIGH]
  from t no
  have "sint (qtable (q_update default_config (new_pid_entry 1) RL_STATE_LOW 2 (- 1000) RL_STATE_HIGH)
           ! state_idx RL_STATE_LOW ! nat 2) =
        spec_q_value (sint (alpha_permille default_config)) (sint (gamma_permille default_config))
      (sint (qtable (new_pid_entry 1) ! state_idx RL_STATE_LOW ! nat 2)) (sint (- 1000 :: long))
      (sint (q_best_next (new_pid_entry 1) RL_STATE_HIGH))"
    by blast
  with sp w b no show ?thesis by (simp only: simp_thms)
qed

section \<open>Q-value updater: learning rate 1.0, discount 0\<close>

lemma sdiv_1000_mult: "(1000 * x) sdiv 1000 = (x :: int)"
  by (simp add: signed_divide_int_def abs_mult sgn_mult mult_sgn_abs)

lemma sdiv_1000_diff: "(1000 * x - 1000 * y) sdiv 1000 = (x - y :: int)"
  using sdiv_1000_mult [of "x - y"] by (simp add: right_diff_distrib)

lemma in_long_sint: "in_long (sint (x :: long))"
  using sint_ge [of x] sint_lt [of x] by (simp add: in_long_def)

text \<open>
  C5, as the specification states it, fails when \<open>1000 * (reward - q)\<close> leaves the range
  of \<open>long\<close>: from a zero cell and reward \<open>- 2 ^ 60\<close> the product wraps to
  \<open>LONG_MIN\<close> and the cell becomes -9223372036854775, not the reward.
\<close>

theorem q_update_sets_reward_counterexample:
  "qtable (q_update unit_config (new_pid_entry 1) RL_STATE_LOW 0 (- (2 ^ 60)) RL_STATE_LOW) ! 0 ! 0
     \<noteq> - (2 ^ 60)"
  by code_simp

text \<open>
  C5, amended. With \<open>alpha_permille = 1000\<close> and \<open>gamma_permille = 0\<close>, \<open>q_update\<close>
  sets cell \<open>(s, a)\<close> exactly to the reward, for every table, reward and next state for
  which \<open>1000 * (reward - q)\<close> fits in a \<open>long\<close>, \<open>q\<close> being the cell's prior value.
\<close>

theorem q_update_sets_reward:
  assumes "alpha_permille cfg = 1000" and "gamma_permille cfg = 0"
    and "wf_qtable (qtable pe)" and "0 \<le> a" and "a < int NUM_ACTIONS"
    and "in_long (1000 * (sint reward - sint (qtable pe ! state_idx s ! nat a)))"
  shows "qtable (q_update cfg pe s a reward s_next) ! state_idx s ! nat a = reward"
proof -
  let ?q = "qtable pe ! state_idx s ! nat a" and ?bn = "q_best_next pe s_next"
  have al: "sint (alpha_permille cfg) = 1000" and ga: "sint (gamma_permille cfg) = 0"
    using assms(1,2) by simp_all
  have sp: "spec_q_value 1000 0 (sint ?q) (sint reward) (sint ?bn) = sint reward"
    by (simp add: spec_q_value_def sdiv_1000_diff)
  have "sint (q_new_value cfg ?q reward ?bn) =
          spec_q_value (sint (alpha_permille cfg)) (sint (gamma_permille cfg))
            (sint ?q) (sint reward) (sint ?bn)"
  proof (rule q_new_value_int)
    show "in_long (sint (gamma_permille cfg) * sint ?bn)"
      by (simp add: ga in_long_def)
    show "in_long (sint (alpha_permille cfg) *
        (sint reward + (sint (gamma_permille cfg) * sint ?bn) sdiv 1000 - sint ?q))"
      using assms(6) by (simp add: al ga)
    show "in_long (spec_q_value (sint (alpha_permille cfg)) (sint (gamma_permille cfg))
        (sint ?q) (sint reward) (sint ?bn))"
      unfolding al ga sp by (rule in_long_sint)
  qed
  then have "sint (q_new_value cfg ?q reward ?bn) = sint reward"
    by (simp only: al ga sp)
  then have "q_new_value cfg ?q reward ?bn = reward"
    by (rule signed_word_eqI)
  then show ?thesis
    using q_update_written_cell [OF assms(3,4,5), of cfg s reward s_next] by simp
qed

theorem q_update_sets_reward_witness:
  "alpha_permille unit_config = 1000 \<and> gamma_permille unit_config = 0 \<and>
   wf_qtable (qtable tie_entry) \<and> (0 :: int) \<le> 1 \<and> (1 :: int) < int NUM_ACTIONS \<and>
   in_long (1000 * (sint (- 52 :: long) - sint (qtable tie_entry ! state_idx RL_STATE_MED ! nat 1))) \<and>
   qtable (q_update unit_config tie_entry RL_STATE_MED 1 (- 52) RL_STATE_HIGH)
     ! state_idx RL_STATE_MED ! nat 1 = - 52"
proof -
  have c: "alpha_permille unit_config = 1000" "gamma_permille unit_config = 0"
    by (simp_all add: unit_config_def)
  have w: "wf_qtable (qtable tie_entry)" by code_simp
  have b: "(0 :: int) \<le> 1" "(1 :: int) < int NUM_ACTIONS" by (simp_all add: NUM_ACTIONS_def)
  have r: "in_long (1000 * (sint (- 52 :: long) - sint (qtable tie_entry ! state_idx RL_STATE_MED ! nat 1)))"
    by code_simp
  show ?thesis
    using q_update_sets_reward [OF c w b r, of RL_STATE_HIGH] c w b r by (simp only: simp_thms)
qed

section \<open>Sampling loop: the reward\<close>

lemma tick_delta_unat:
  "unat (tick_delta now prev) = unat now - unat prev"
  by (simp add: tick_delta_def unat_sub word_le_nat_alt)

lemma tick_delta_uint:
  "uint (tick_delta now prev) = max 0 (uint now - uint prev)"
proof (cases "prev \<le> now")
  case True
  then have "uint prev \<le> uint now" by (simp add: word_le_def)
  then have "uint (now - prev) = uint now - uint prev"
    by (simp add: uint_sub_lem)
  then show ?thesis
    using True \<open>uint prev \<le> uint now\<close> by (simp add: tick_delta_def)
next
  case False
  then have "uint now < uint prev" by (simp add: word_le_def)
  then show ?thesis
    using False by (simp add: tick_delta_def)
qed

lemma tick_reward_sint: "sint (tick_reward delta) = - (uint delta div 1000000)"
proof -
  let ?n = "unat delta div 1000000"
  have "unat delta < 2 ^ 64"
    using unsigned_less [of delta] by simp
  then have n: "?n < 2 ^ 63" by simp
  then have "?n mod 2 ^ 64 = ?n" by simp
  then have "delta div 1000000 = word_of_nat ?n"
    by (simp add: word_eq_iff_unsigned [where ?'a = nat] unat_div unat_of_nat)
  then have "tick_reward delta = word_of_int (- int ?n)"
    by (simp add: tick_reward_def)
  moreover have "in_long (- int ?n)"
    using n by (simp add: in_long_def)
  ultimately have "sint (tick_reward delta) = - int ?n"
    by (simp only: sint_word_of_int_long)
  then show ?thesis
    by (simp add: zdiv_int)
qed

text \<open>
  C7, as the specification states it, fails where it takes the reward from the delta of
  the prior tick. Process 42 is processed with a delta of 500,000 ns at one tick, where
  action 0 is chosen in state LOW, and with a delta of 52,000,000 ns at the next. The
  update for that pair is made at the later tick, and \<open>q_update\<close> is handed -52 there,
  the reward of the later tick's delta: the cell \<open>qtable[LOW][0]\<close> becomes -10, where the
  reward 0 of the 500,000 ns delta would leave it at 0.
\<close>

theorem reward_prior_tick_counterexample:
  "rl_worker greedy_config \<lparr>table = [], trace = []\<rparr> [[lag_visit1], [lag_visit2]] =
     \<lparr>table = [lag_entry],
      trace = [SetNice 42 (- 5), QUpdate 42 RL_STATE_LOW 2 0 RL_STATE_LOW]\<rparr> \<and>
   tick_delta (t_runtime (v_task lag_visit2)) (t_runtime (v_task lag_visit1)) = 500000 \<and>
   tick_delta (t_runtime (v_task lag_visit3)) (t_runtime (v_task lag_visit2)) = 52000000 \<and>
   rl_worker greedy_config \<lparr>table = [], trace = []\<rparr> [[lag_visit1], [lag_visit2], [lag_visit3]] =
     \<lparr>table = [\<lparr>pid = 42, prev_runtime = 52500001,
                 qtable = [[- 10, 0, 0], [0, 0, 0], [0, 0, 0]],
                 prev_state = RL_STATE_HIGH, prev_action = 0\<rparr>],
      trace = [SetNice 42 (- 5), QUpdate 42 RL_STATE_LOW 2 0 RL_STATE_LOW,
               SetNice 42 (- 10), QUpdate 42 RL_STATE_LOW 0 (- 52) RL_STATE_HIGH]\<rparr> \<and>
   qtable (q_update greedy_config lag_entry RL_STATE_LOW 0 (tick_reward 500000) RL_STATE_HIGH)
     ! 0 ! 0 = 0 \<and>
   qtable (hd (table (rl_worker greedy_config \<lparr>table = [], trace = []\<rparr>
       [[lag_visit1], [lag_visit2], [lag_visit3]]))) ! 0 ! 0 \<noteq>
   qtable (q_update greedy_config lag_entry RL_STATE_LOW 0 (tick_reward 500000) RL_STATE_HIGH)
     ! 0 ! 0"
  by code_simp

text \<open>
  C7, amended. On a tick that processes an entry (its \<open>prev_runtime\<close> is not 0) and finds
  a previous action in range, the entry stored back is the result of \<open>q_update\<close> applied
  to the previous state and action, the next state classified at this tick, and the
  reward \<open>- (delta / 1000000)\<close> of this same tick's delta, with the bookkeeping fields
  set; the call recorded in the trace carries the same arguments. The signed value of
  that reward is minus the truncated quotient of the unsigned delta, the delta is the
  difference of the runtimes, 0 when the runtime went down, and a tick whose own delta
  is 500,000 ns hands \<open>q_update\<close> the reward 0. With no previous action in range the
  table is not updated.
\<close>

theorem process_entry_reward:
  assumes "prev_runtime (tbl ! i) \<noteq> 0"
  shows
    "(let pe = tbl ! i;
          delta = tick_delta (t_runtime (v_task v)) (prev_runtime pe);
          st = cpu_delta_to_state delta;
          action = choose_action cfg pe st (v_rnd1 v) (v_rnd2 v);
          reward = tick_reward delta;
          valid = (0 \<le> prev_action pe \<and> prev_action pe < int NUM_ACTIONS)
      in table (process_entry cfg w tbl i v) =
           tbl[i := (if valid then q_update cfg pe (prev_state pe) (prev_action pe) reward st
                     else pe)
                    \<lparr>prev_state := st, prev_action := action,
                      prev_runtime := t_runtime (v_task v)\<rparr>] \<and>
         trace (process_entry cfg w tbl i v) =
           trace w @
           (case apply_action_to_task cfg (t_nice (v_task v)) action of
              Some n \<Rightarrow> [SetNice (t_pid (v_task v)) n] | None \<Rightarrow> []) @
           (if valid
            then [QUpdate (t_pid (v_task v)) (prev_state pe) (prev_action pe) reward st]
            else []) \<and>
         sint reward = - (uint delta div 1000000) \<and>
         uint delta = max 0 (uint (t_runtime (v_task v)) - uint (prev_runtime pe)) \<and>
         (uint delta = 500000 \<longrightarrow> reward = 0))"
proof -
  let ?delta = "tick_delta (t_runtime (v_task v)) (prev_runtime (tbl ! i))"
  have zero: "tick_reward ?delta = 0" if "uint ?delta = 500000"
  proof -
    have "sint (tick_reward ?delta) = sint (0 :: long)"
      using that by (simp add: tick_reward_sint)
    then show ?thesis by (rule signed_word_eqI)
  qed
  show ?thesis
    using assms zero
    by (simp add: process_entry_def Let_def tick_reward_sint tick_delta_uint)
qed

theorem process_entry_reward_witness:
  "prev_runtime ([seen_entry] ! 0) \<noteq> 0 \<and>
   table (process_entry default_config \<lparr>table = [seen_entry], trace = []\<rparr> [seen_entry] 0 visit2) =
     [\<lparr>pid = 42, prev_runtime = 52500000, qtable = [[0, 0, - 10], [0, 0, 0], [0, 0, 0]],
       prev_state = RL_STATE_HIGH, prev_action = 0\<rparr>] \<and>
   sint (- 52 :: long) = - (uint (52000000 :: ull) div 1000000)"
proof -
  have h: "prev_runtime ([seen_entry] ! 0) \<noteq> 0" by code_simp
  note t = process_entry_reward [OF h, of visit2 default_config "\<lparr>table = [seen_entry], trace = []\<rparr>",
      unfolded Let_def]
  have d: "tick_delta (t_runtime (v_task visit2)) (prev_runtime ([seen_entry] ! 0)) = 52000000"
    by code_simp
  have r: "tick_reward 52000000 = - 52" by code_simp
  have e: "[seen_entry]
      [0 := (if 0 \<le> prev_action ([seen_entry] ! 0) \<and> prev_action ([seen_entry] ! 0) < int NUM_ACTIONS
             then q_update default_config ([seen_entry] ! 0) (prev_state ([seen_entry] ! 0))
                    (prev_action ([seen_entry] ! 0)) (- 52) (cpu_delta_to_state 52000000)
             else [seen_entry] ! 0)
            \<lparr>prev_state := cpu_delta_to_state 52000000,
              prev_action := choose_action default_config ([seen_entry] ! 0)
                 (cpu_delta_to_state 52000000) (v_rnd1 visit2) (v_rnd2 visit2),
              prev_runtime := t_runtime (v_task visit2)\<rparr>] =
     [\<lparr>pid = 42, prev_runtime = 52500000, qtable = [[0, 0, - 10], [0, 0, 0], [0, 0, 0]],
       prev_state = RL_STATE_HIGH, prev_action = 0\<rparr>]"
    by code_simp
  from t have "table (process_entry default_config \<lparr>table = [seen_entry], trace = []\<rparr> [seen_entry] 0 visit2) =
     [\<lparr>pid = 42, prev_runtime = 52500000, qtable = [[0, 0, - 10], [0, 0, 0], [0, 0, 0]],
       prev_state = RL_STATE_HIGH, prev_action = 0\<rparr>]"
    unfolding d r e by (rule conjunct1)
  moreover from t have "sint (- 52 :: long) = - (uint (52000000 :: ull) div 1000000)"
    unfolding d r by blast
  ultimately show ?thesis using h by (simp only: simp_thms)
qed

section \<open>Sampling loop: the first processed tick\<close>

text \<open>
  C1. The action a new entry starts with, \<open>RL_NOOP\<close>, passes the worker's test
  \<open>prev_action >= 0 && prev_action < NUM_ACTIONS\<close>. Process 42 is first seen with
  500,000 ns of CPU time and next with 52,500,000 ns. The second tick is the first one
  that processes it, and on it the worker calls \<open>q_update\<close> for the pair (LOW, no-op)
  the entry was created with: the cell \<open>qtable[LOW][NOOP]\<close> goes from 0 to -10.
\<close>

theorem first_processed_tick_updates:
  "0 \<le> prev_action (new_pid_entry p) \<and> prev_action (new_pid_entry p) < int NUM_ACTIONS \<and>
   rl_worker default_config \<lparr>table = [], trace = []\<rparr> [[visit1], [visit2]] =
     \<lparr>table = [\<lparr>pid = 42, prev_runtime = 52500000,
                 qtable = [[0, 0, - 10], [0, 0, 0], [0, 0, 0]],
                 prev_state = RL_STATE_HIGH, prev_action = 0\<rparr>],
      trace = [SetNice 42 (- 5), QUpdate 42 RL_STATE_LOW 2 (- 52) RL_STATE_HIGH]\<rparr>"
proof -
  have guard: "0 \<le> prev_action (new_pid_entry p) \<and> prev_action (new_pid_entry p) < int NUM_ACTIONS"
    by (simp add: new_pid_entry_def RL_NOOP_def NUM_ACTIONS_def)
  have run: "rl_worker default_config \<lparr>table = [], trace = []\<rparr> [[visit1], [visit2]] =
     \<lparr>table = [\<lparr>pid = 42, prev_runtime = 52500000,
                 qtable = [[0, 0, - 10], [0, 0, 0], [0, 0, 0]],
                 prev_state = RL_STATE_HIGH, prev_action = 0\<rparr>],
      trace = [SetNice 42 (- 5), QUpdate 42 RL_STATE_LOW 2 (- 52) RL_STATE_HIGH]\<rparr>"
    by code_simp
  from guard run show ?thesis by (simp only: simp_thms)
qed

section \<open>The pid table: one entry per pid\<close>

lemma find_pid_entry_Some:
  "find_pid_entry tbl p = Some i \<Longrightarrow> i < length tbl \<and> pid (tbl ! i) = p"
  by (induction tbl arbitrary: i) (auto split: if_splits)

lemma find_pid_entry_None: "find_pid_entry tbl p = None \<longleftrightarrow> p \<notin> pid ` set tbl"
  by (induction tbl) auto

lemma find_pid_entry_map_pid:
  "map pid tbl = map pid tbl' \<Longrightarrow> find_pid_entry tbl p = find_pid_entry tbl' p"
proof (induction tbl arbitrary: tbl')
  case Nil
  then show ?case by simp
next
  case (Cons e es)
  then obtain e' es' where t: "tbl' = e' # es'" "pid e = pid e'" "map pid es = map pid es'"
    by (cases tbl') auto
  with Cons.IH [of es'] show ?case by simp
qed

lemma map_pid_update:
  "i < length tbl \<Longrightarrow> pid e = pid (tbl ! i) \<Longrightarrow> map pid (tbl[i := e]) = map pid tbl"
  by (simp add: map_update list_update_same_conv)

lemma get_pid_entry_found:
  "find_pid_entry tbl p = Some i \<Longrightarrow> get_pid_entry tbl p ok = (tbl, Some i)"
  by (simp add: get_pid_entry_def)

lemma get_pid_entry_absent:
  "find_pid_entry tbl p = None \<Longrightarrow>
   get_pid_entry tbl p ok = (if ok then (new_pid_entry p # tbl, Some 0) else (tbl, None))"
  by (simp add: get_pid_entry_def)

lemma get_pid_entry_distinct:
  assumes "distinct (map pid tbl)"
  shows "distinct (map pid (fst (get_pid_entry tbl p ok)))"
proof (cases "find_pid_entry tbl p")
  case None
  then have "p \<notin> pid ` set tbl" by (simp add: find_pid_entry_None)
  then show ?thesis
    using assms None by (simp add: get_pid_entry_absent new_pid_entry_def)
next
  case (Some i)
  then show ?thesis using assms by (simp add: get_pid_entry_found)
qed

lemma get_pid_entry_again:
  assumes "get_pid_entry tbl p ok = (tbl', Some i)"
  shows "get_pid_entry tbl' p ok2 = (tbl', Some i)"
proof (cases "find_pid_entry tbl p")
  case None
  with assms have "tbl' = new_pid_entry p # tbl" "i = 0"
    by (auto simp: get_pid_entry_absent split: if_splits)
  then show ?thesis
    by (simp add: get_pid_entry_def new_pid_entry_def)
next
  case (Some j)
  with assms show ?thesis by (simp add: get_pid_entry_found)
qed

lemma process_entry_pid:
  "pid ((table (process_entry cfg w tbl i v)) ! i) = pid (tbl ! i)" if "i < length tbl"
  using that by (simp add: process_entry_def Let_def q_update_fields)

lemma process_entry_map_pid:
  assumes "i < length tbl"
  shows "map pid (table (process_entry cfg w tbl i v)) = map pid tbl"
  using assms by (simp add: process_entry_def Let_def q_update_fields map_pid_update)

lemma process_one_distinct:
  assumes "distinct (map pid (table w))"
  shows "distinct (map pid (table (process_one cfg w v)))"
proof (cases "t_exit_state (v_task v) = EXIT_ZOMBIE \<or> t_exit_state (v_task v) = EXIT_DEAD")
  case True
  then show ?thesis using assms by (simp add: process_one_def)
next
  case False
  obtain tbl r where g: "get_pid_entry (table w) (t_pid (v_task v)) (v_alloc_ok v) = (tbl, r)"
    by (cases "get_pid_entry (table w) (t_pid (v_task v)) (v_alloc_ok v)")
  have d: "distinct (map pid tbl)"
    using get_pid_entry_distinct [OF assms, of "t_pid (v_task v)" "v_alloc_ok v"] g by simp
  show ?thesis
  proof (cases r)
    case None
    then show ?thesis using False g d by (simp add: process_one_def)
  next
    case (Some i)
    have "get_pid_entry tbl (t_pid (v_task v)) True = (tbl, Some i)"
      using g Some by (auto intro: get_pid_entry_again)
    then have "find_pid_entry tbl (t_pid (v_task v)) = Some i"
      by (auto simp: get_pid_entry_def split: option.splits)
    then have "i < length tbl" by (simp add: find_pid_entry_Some)
    then show ?thesis
      using False g Some d by (simp add: process_one_def process_entry_map_pid)
  qed
qed

lemma rl_tick_distinct:
  "distinct (map pid (table w)) \<Longrightarrow> distinct (map pid (table (rl_tick cfg w vs)))"
  by (induction vs arbitrary: w) (simp_all add: process_one_distinct)

lemma rl_worker_distinct:
  "distinct (map pid (table w)) \<Longrightarrow> distinct (map pid (table (rl_worker cfg w ts)))"
  by (induction ts arbitrary: w) (simp_all add: rl_tick_distinct)

lemma distinct_pid_filter:
  "distinct (map pid tbl) \<Longrightarrow> length (filter (\<lambda>e. pid e = p) tbl) \<le> 1"
proof (induction tbl)
  case Nil
  then show ?case by simp
next
  case (Cons e es)
  show ?case
  proof (cases "pid e = p")
    case True
    then have "\<forall>x\<in>set es. pid x \<noteq> p"
      using Cons.prems by (fastforce simp: image_iff)
    then have "filter (\<lambda>e. pid e = p) es = []"
      by (simp add: filter_empty_conv)
    then show ?thesis using True by simp
  next
    case False
    then show ?thesis using Cons by simp
  qed
qed

text \<open>
  C8. On a table with at most one entry per pid, \<open>get_pid_entry\<close> keeps that
  property: it returns the existing entry and leaves the table as it is when the pid is
  present, and otherwise, when the allocation succeeds, puts exactly one new entry with
  zeroed default fields at the head; calling it again for the same pid returns the same
  entry and allocates nothing. The whole run of the worker keeps at most one entry per pid.
\<close>

theorem get_pid_entry_unique:
  assumes "distinct (map pid tbl)"
  shows
    "distinct (map pid (fst (get_pid_entry tbl p ok))) \<and>
     length (filter (\<lambda>e. pid e = p) (fst (get_pid_entry tbl p ok))) \<le> 1 \<and>
     (case find_pid_entry tbl p of
        Some i \<Rightarrow> get_pid_entry tbl p ok = (tbl, Some i) \<and> i < length tbl \<and> pid (tbl ! i) = p
      | None \<Rightarrow> p \<notin> pid ` set tbl \<and>
          get_pid_entry tbl p ok = (if ok then (new_pid_entry p # tbl, Some 0) else (tbl, None))) \<and>
     new_pid_entry p =
       \<lparr>pid = p, prev_runtime = 0, qtable = [[0, 0, 0], [0, 0, 0], [0, 0, 0]],
        prev_state = RL_STATE_LOW, prev_action = RL_NOOP\<rparr> \<and>
     (\<forall>ok2. snd (get_pid_entry tbl p ok) \<noteq> None \<longrightarrow>
        get_pid_entry (fst (get_pid_entry tbl p ok)) p ok2 = get_pid_entry tbl p ok) \<and>
     distinct (map pid (table (rl_worker cfg \<lparr>table = tbl, trace = tr\<rparr> ticks)))"
proof -
  let ?g = "get_pid_entry tbl p ok"
  have d: "distinct (map pid (fst ?g))"
    by (rule get_pid_entry_distinct [OF assms])
  then have one: "length (filter (\<lambda>e. pid e = p) (fst ?g)) \<le> 1"
    by (rule distinct_pid_filter)
  have look: "case find_pid_entry tbl p of
        Some i \<Rightarrow> ?g = (tbl, Some i) \<and> i < length tbl \<and> pid (tbl ! i) = p
      | None \<Rightarrow> p \<notin> pid ` set tbl \<and>
          ?g = (if ok then (new_pid_entry p # tbl, Some 0) else (tbl, None))"
  proof (cases "find_pid_entry tbl p")
    case None
    then show ?thesis
      using find_pid_entry_None [of tbl p] by (simp add: get_pid_entry_absent)
  next
    case (Some i)
    then show ?thesis
      using find_pid_entry_Some [of tbl p i] by (simp add: get_pid_entry_found)
  qed
  have fresh: "new_pid_entry p =
       \<lparr>pid = p, prev_runtime = 0, qtable = [[0, 0, 0], [0, 0, 0], [0, 0, 0]],
        prev_state = RL_STATE_LOW, prev_action = RL_NOOP\<rparr>"
    by (simp add: new_pid_entry_def NUM_STATES_def NUM_ACTIONS_def numeral_3_eq_3)
  have again: "get_pid_entry (fst ?g) p ok2 = ?g" if "snd ?g \<noteq> None" for ok2
  proof -
    from that obtain i where "?g = (fst ?g, Some i)"
      by (cases ?g) auto
    then show ?thesis
      using get_pid_entry_again [of tbl p ok "fst ?g" i ok2] by simp
  qed
  have run: "distinct (map pid (table (rl_worker cfg \<lparr>table = tbl, trace = tr\<rparr> ticks)))"
    by (rule rl_worker_distinct) (simp add: assms)
  show ?thesis
    using d one look fresh again run by blast
qed

theorem get_pid_entry_unique_witness:
  "distinct (map pid [seen_entry]) \<and>
   get_pid_entry [seen_entry] 42 False = ([seen_entry], Some 0) \<and>
   get_pid_entry [seen_entry] 7 True = ([new_pid_entry 7, seen_entry], Some 0) \<and>
   get_pid_entry (fst (get_pid_entry [seen_entry] 7 True)) 7 True = get_pid_entry [seen_entry] 7 True"
proof -
  have d: "distinct (map pid [seen_entry])" by simp
  have f: "find_pid_entry [seen_entry] 42 = Some 0" "find_pid_entry [seen_entry] 7 = None"
    by (simp_all add: seen_entry_def new_pid_entry_def)
  have s: "snd (get_pid_entry [seen_entry] 7 True) \<noteq> None"
    by (simp add: get_pid_entry_def f)
  note old = get_pid_entry_unique [OF d, of 42 False default_config "[]" "[]", unfolded f]
  note new = get_pid_entry_unique [OF d, of 7 True default_config "[]" "[]", unfolded f]
  from old have 1: "get_pid_entry [seen_entry] 42 False = ([seen_entry], Some 0)"
    by simp
  from new have 2: "get_pid_entry [seen_entry] 7 True = ([new_pid_entry 7, seen_entry], Some 0)"
    by simp
  from new s have 3: "get_pid_entry (fst (get_pid_entry [seen_entry] 7 True)) 7 True =
      get_pid_entry [seen_entry] 7 True"
    by blast
  from d 1 2 3 show ?thesis by (simp only: simp_thms)
qed

section \<open>Sampling loop: a failed allocation\<close>

lemma rl_tick_append: "rl_tick cfg w (xs @ ys) = rl_tick cfg (rl_tick cfg w xs) ys"
  by (induction xs arbitrary: w) simp_all

text \<open>
  C9. When a process has no entry yet and \<open>kzalloc\<close> fails at its visit,
  \<open>get_pid_entry\<close> returns \<open>NULL\<close> and the visit changes nothing: the tick, and the
  run of the worker over this and all later ticks, are the same as if the process had
  not been in the list, so the remaining processes and ticks are worked on as usual.
\<close>

theorem alloc_failure_skips_process:
  assumes "find_pid_entry (table (rl_tick cfg w pre)) (t_pid (v_task v)) = None"
    and "\<not> v_alloc_ok v"
  shows
    "get_pid_entry (table (rl_tick cfg w pre)) (t_pid (v_task v)) (v_alloc_ok v) =
       (table (rl_tick cfg w pre), None) \<and>
     process_one cfg (rl_tick cfg w pre) v = rl_tick cfg w pre \<and>
     rl_tick cfg w (pre @ v # post) = rl_tick cfg w (pre @ post) \<and>
     rl_worker cfg w ((pre @ v # post) # ticks) = rl_worker cfg w ((pre @ post) # ticks)"
proof -
  let ?w = "rl_tick cfg w pre"
  have g: "get_pid_entry (table ?w) (t_pid (v_task v)) (v_alloc_ok v) = (table ?w, None)"
    using assms by (simp add: get_pid_entry_absent)
  then have one: "process_one cfg ?w v = ?w"
    by (simp add: process_one_def Let_def)
  then have tick: "rl_tick cfg w (pre @ v # post) = rl_tick cfg w (pre @ post)"
    by (simp add: rl_tick_append)
  then show ?thesis
    using g one by simp
qed

theorem alloc_failure_skips_process_witness:
  "find_pid_entry (table (rl_tick default_config \<lparr>table = [], trace = []\<rparr> [visit1]))
     (t_pid (v_task starved_visit)) = None \<and>
   \<not> v_alloc_ok starved_visit \<and>
   rl_worker default_config \<lparr>table = [], trace = []\<rparr>
     [[visit1, starved_visit, visit2]] =
   rl_worker default_config \<lparr>table = [], trace = []\<rparr> [[visit1, visit2]]"
proof -
  let ?v = "starved_visit"
  let ?w = "\<lparr>table = [], trace = []\<rparr>"
  have a: "find_pid_entry (table (rl_tick default_config ?w [visit1])) (t_pid (v_task ?v)) = None"
    by code_simp
  have b: "\<not> v_alloc_ok ?v" by (simp add: starved_visit_def)
  show ?thesis
    using alloc_failure_skips_process [OF a b, of "[visit2]" "[]"] a b by simp
qed

section \<open>Sampling loop: a process that has used no CPU time\<close>

lemma entry_of_Cons: "entry_of (e # tbl) p = (if pid e = p then Some e else entry_of tbl p)"
  by (cases "find_pid_entry tbl p") (simp_all add: entry_of_def)

lemma entry_of_update_other:
  assumes "find_pid_entry tbl p' = Some i" and "pid e' = p'" and "p' \<noteq> p"
  shows "entry_of (tbl[i := e']) p = entry_of tbl p"
proof -
  have i: "i < length tbl" "pid (tbl ! i) = p'"
    using find_pid_entry_Some [OF assms(1)] by simp_all
  then have "map pid (tbl[i := e']) = map pid tbl"
    using assms(2) by (simp add: map_pid_update)
  then have f: "find_pid_entry (tbl[i := e']) p = find_pid_entry tbl p"
    by (rule find_pid_entry_map_pid)
  show ?thesis
  proof (cases "find_pid_entry tbl p")
    case None
    then show ?thesis by (simp add: entry_of_def f)
  next
    case (Some j)
    then have "pid (tbl ! j) = p" by (simp add: find_pid_entry_Some)
    then have "j \<noteq> i" using i assms(3) by auto
    then show ?thesis by (simp add: entry_of_def f Some)
  qed
qed

lemma events_of_append: "events_of p (xs @ ys) = events_of p xs @ events_of p ys"
  by (simp add: events_of_def)

lemma events_of_other: "\<forall>e\<in>set evs. event_pid e \<noteq> p \<Longrightarrow> events_of p evs = []"
  by (simp add: events_of_def filter_empty_conv)

lemma process_entry_shape:
  "\<exists>pe' evs. process_entry cfg w tbl i v = \<lparr>table = tbl[i := pe'], trace = trace w @ evs\<rparr> \<and>
      pid pe' = pid (tbl ! i) \<and> (\<forall>e\<in>set evs. event_pid e = t_pid (v_task v))"
proof (cases "prev_runtime (tbl ! i) = 0")
  case True
  then have "process_entry cfg w tbl i v =
      \<lparr>table = tbl[i := (tbl ! i)\<lparr>prev_runtime := t_runtime (v_task v)\<rparr>], trace = trace w @ []\<rparr>"
    by (simp add: process_entry_def Let_def)
  then show ?thesis
    by (intro exI [of _ "(tbl ! i)\<lparr>prev_runtime := t_runtime (v_task v)\<rparr>"] exI [of _ "[]"]) simp
next
  case False
  then show ?thesis
    by (auto simp: process_entry_def Let_def q_update_fields split: option.splits)
qed

lemma process_entry_first_observation:
  assumes "prev_runtime (tbl ! i) = 0" and "t_runtime (v_task v) = 0" and "i < length tbl"
  shows "process_entry cfg w tbl i v = w\<lparr>table := tbl\<rparr>"
  using assms by (simp add: process_entry_def Let_def list_update_same_conv)

lemma process_one_untouched:
  assumes z: "prev_runtime e0 = 0" and q: "quiet_visit p v" and u: "untouched p fresh e0 tr0 w"
  shows "untouched p fresh e0 tr0 (process_one cfg w v)"
proof (cases "t_exit_state (v_task v) = EXIT_ZOMBIE \<or> t_exit_state (v_task v) = EXIT_DEAD")
  case True
  then show ?thesis using u by (simp add: process_one_def)
next
  case live: False
  let ?p' = "t_pid (v_task v)"
  show ?thesis
  proof (cases "find_pid_entry (table w) ?p'")
    case None
    note g = get_pid_entry_absent [OF None, of "v_alloc_ok v"]
    show ?thesis
    proof (cases "v_alloc_ok v")
      case False
      then show ?thesis using live g u by (simp add: process_one_def Let_def)
    next
      case True
      let ?tbl = "new_pid_entry ?p' # table w"
      have step: "process_one cfg w v = process_entry cfg w ?tbl 0 v"
        using live g True by (simp add: process_one_def Let_def)
      show ?thesis
      proof (cases "?p' = p")
        case same: True
        then have rt: "t_runtime (v_task v) = 0" using q by (simp add: quiet_visit_def)
        have "entry_of (table w) p = None"
          using None same by (simp add: entry_of_def)
        then have e0: "e0 = new_pid_entry p" using u by (simp add: untouched_def)
        have "process_entry cfg w ?tbl 0 v = w\<lparr>table := ?tbl\<rparr>"
          by (rule process_entry_first_observation) (simp_all add: rt new_pid_entry_def)
        then show ?thesis
          using u step same e0 by (simp add: untouched_def entry_of_Cons new_pid_entry_def)
      next
        case other: False
        obtain pe' evs where s: "process_entry cfg w ?tbl 0 v = \<lparr>table = ?tbl[0 := pe'], trace = trace w @ evs\<rparr>"
          and pe': "pid pe' = pid (?tbl ! 0)" and evs: "\<forall>e\<in>set evs. event_pid e = ?p'"
          using process_entry_shape [of cfg w ?tbl 0 v] by blast
        have "pid pe' \<noteq> p" using pe' other by (simp add: new_pid_entry_def)
        moreover have "events_of p evs = []"
          using evs other by (intro events_of_other) simp
        ultimately show ?thesis
          using u by (simp add: step s untouched_def entry_of_Cons events_of_append)
      qed
    qed
  next
    case (Some i)
    note g = get_pid_entry_found [OF Some, of "v_alloc_ok v"]
    have step: "process_one cfg w v = process_entry cfg w (table w) i v"
      using live g by (simp add: process_one_def Let_def)
    have i: "i < length (table w)" "pid (table w ! i) = ?p'"
      using find_pid_entry_Some [OF Some] by simp_all
    show ?thesis
    proof (cases "?p' = p")
      case same: True
      then have rt: "t_runtime (v_task v) = 0" using q by (simp add: quiet_visit_def)
      have "entry_of (table w) p = Some (table w ! i)"
        using Some same by (simp add: entry_of_def)
      then have "table w ! i = e0" using u by (simp add: untouched_def)
      then have "process_entry cfg w (table w) i v = w\<lparr>table := table w\<rparr>"
        using z rt i by (intro process_entry_first_observation) simp_all
      then show ?thesis using u step by simp
    next
      case other: False
      obtain pe' evs where s: "process_entry cfg w (table w) i v = \<lparr>table = (table w)[i := pe'], trace = trace w @ evs\<rparr>"
        and pe': "pid pe' = pid (table w ! i)" and evs: "\<forall>e\<in>set evs. event_pid e = ?p'"
        using process_entry_shape [of cfg w "table w" i v] by blast
      have "entry_of ((table w)[i := pe']) p = entry_of (table w) p"
        using Some pe' i other by (intro entry_of_update_other [where p' = ?p']) simp_all
      moreover have "events_of p evs = []"
        using evs other by (intro events_of_other) simp
      ultimately show ?thesis
        using u by (simp add: step s untouched_def events_of_append)
    qed
  qed
qed

lemma rl_tick_untouched:
  "prev_runtime e0 = 0 \<Longrightarrow> list_all (quiet_visit p) vs \<Longrightarrow> untouched p fresh e0 tr0 w \<Longrightarrow>
   untouched p fresh e0 tr0 (rl_tick cfg w vs)"
  by (induction vs arbitrary: w) (simp_all add: process_one_untouched)

lemma rl_worker_untouched:
  "prev_runtime e0 = 0 \<Longrightarrow> list_all (list_all (quiet_visit p)) ts \<Longrightarrow> untouched p fresh e0 tr0 w \<Longrightarrow>
   untouched p fresh e0 tr0 (rl_worker cfg w ts)"
  by (induction ts arbitrary: w) (simp_all add: rl_tick_untouched)

text \<open>
  C10. Take a process whose entry, if it has one, has \<open>prev_runtime = 0\<close>, and a run of
  ticks in which every visit of that process sees a cumulative CPU time of 0. After the
  run no \<open>set_user_nice\<close> and no \<open>q_update\<close> call has been made for it, and its entry
  is the one it had (state, action and Q-table included), or the freshly created one,
  again with \<open>prev_runtime = 0\<close>; each such visit of a process with an entry leaves the
  world as it was.
\<close>

theorem zero_runtime_stays_unsampled:
  assumes "list_all (list_all (quiet_visit p)) ticks"
    and "case entry_of (table w) p of None \<Rightarrow> True | Some e \<Rightarrow> prev_runtime e = 0"
  shows
    "events_of p (trace (rl_worker cfg w ticks)) = events_of p (trace w) \<and>
     (case entry_of (table w) p of
        Some e \<Rightarrow> entry_of (table (rl_worker cfg w ticks)) p = Some e
      | None \<Rightarrow> entry_of (table (rl_worker cfg w ticks)) p = None \<or>
          entry_of (table (rl_worker cfg w ticks)) p = Some (new_pid_entry p)) \<and>
     prev_runtime (new_pid_entry p) = 0 \<and>
     (\<forall>v. t_pid (v_task v) = p \<and> t_runtime (v_task v) = 0 \<and> entry_of (table w) p \<noteq> None \<longrightarrow>
        process_one cfg w v = w)"
proof -
  have fresh: "prev_runtime (new_pid_entry p) = 0"
    by (simp add: new_pid_entry_def)
  have one: "process_one cfg w v = w"
    if v: "t_pid (v_task v) = p" "t_runtime (v_task v) = 0" and e: "entry_of (table w) p \<noteq> None" for v
  proof (cases "t_exit_state (v_task v) = EXIT_ZOMBIE \<or> t_exit_state (v_task v) = EXIT_DEAD")
    case True
    then show ?thesis by (simp add: process_one_def)
  next
    case False
    from e obtain i where f: "find_pid_entry (table w) p = Some i"
      by (auto simp: entry_of_def)
    then have i: "i < length (table w)" by (simp add: find_pid_entry_Some)
    have "prev_runtime (table w ! i) = 0"
      using assms(2) f by (simp add: entry_of_def)
    then have "process_entry cfg w (table w) i v = w\<lparr>table := table w\<rparr>"
      using v i by (intro process_entry_first_observation) simp_all
    then show ?thesis
      using False f v by (simp add: process_one_def Let_def get_pid_entry_found)
  qed
  show ?thesis
  proof (cases "entry_of (table w) p")
    case None
    have "untouched p True (new_pid_entry p) (events_of p (trace w)) w"
      using None by (simp add: untouched_def)
    then have "untouched p True (new_pid_entry p) (events_of p (trace w)) (rl_worker cfg w ticks)"
      using fresh assms(1) by (intro rl_worker_untouched)
    then show ?thesis
      using None fresh one by (auto simp: untouched_def)
  next
    case (Some e)
    then have z: "prev_runtime e = 0" using assms(2) by simp
    have "untouched p False e (events_of p (trace w)) w"
      using Some by (simp add: untouched_def)
    then have "untouched p False e (events_of p (trace w)) (rl_worker cfg w ticks)"
      using z assms(1) by (intro rl_worker_untouched)
    then have "events_of p (trace (rl_worker cfg w ticks)) = events_of p (trace w)"
      and "entry_of (table (rl_worker cfg w ticks)) p = Some e"
      using Some by (auto simp: untouched_def)
    then show ?thesis
      using Some fresh one by simp
  qed
qed

theorem zero_runtime_stays_unsampled_witness:
  "list_all (list_all (quiet_visit 42)) [[idle_visit], [idle_visit], [idle_visit]] \<and>
   entry_of (table \<lparr>table = [], trace = []\<rparr>) 42 = None \<and>
   rl_worker default_config \<lparr>table = [], trace = []\<rparr> [[idle_visit], [idle_visit], [idle_visit]] =
     \<lparr>table = [new_pid_entry 42], trace = []\<rparr> \<and>
   events_of 42 (trace (rl_worker default_config \<lparr>table = [], trace = []\<rparr>
      [[idle_visit], [idle_visit], [idle_visit]])) = []"
proof -
  let ?w = "\<lparr>table = [], trace = []\<rparr>"
  let ?ts = "[[idle_visit], [idle_visit], [idle_visit]]"
  have q: "list_all (list_all (quiet_visit 42)) ?ts" by code_simp
  have n: "entry_of (table ?w) 42 = None" by (simp add: entry_of_def)
  then have h: "case entry_of (table ?w) 42 of None \<Rightarrow> True | Some e \<Rightarrow> prev_runtime e = 0"
    by simp
  have r: "rl_worker default_config ?w ?ts = \<lparr>table = [new_pid_entry 42], trace = []\<rparr>"
    by code_simp
  from zero_runtime_stays_unsampled [OF q h, of default_config]
  have "events_of 42 (trace (rl_worker default_config ?w ?ts)) = events_of 42 (trace ?w)"
    by blast
  then have "events_of 42 (trace (rl_worker default_config ?w ?ts)) = []"
    by (simp add: events_of_def)
  with q n r show ?thesis by (simp only: simp_thms)
qed

end
